theory Spec2Isabelle
  imports Complex_Main "HOL-Library.Word" "HOL-Library.Signed_Division" "HOL-Library.Log_Nat"
begin

unbundle bit_operations_syntax

section \<open>Machine types of the sketch\<close>

text \<open>
  The sketch runs on an 8-bit AVR board: \<open>byte\<close> is 8 bits, \<open>int\<close> and
  \<open>unsigned int\<close> are 16 bits, \<open>long\<close> and \<open>unsigned long\<close> are 32 bits.
  Words carry the bit pattern; \<open>sint\<close> reads a signed variable, \<open>uint\<close>/\<open>unat\<close> an
  unsigned one. A comparison of the source is written on the promoted values, that is on
  \<open>sint\<close>, \<open>uint\<close> or \<open>unat\<close> of its operands.
\<close>

type_synonym byte = "8 word"
type_synonym c_int = "16 word"
type_synonym c_uint = "16 word"
type_synonym c_long = "32 word"
type_synonym c_ulong = "32 word"

section \<open>Constants\<close>

definition BOOST_ON_A_START :: nat where "BOOST_ON_A_START = 14"
definition BOOST_ON_A_END :: nat where "BOOST_ON_A_END = 20"
definition BOOST_ON_A_TEMP :: int where "BOOST_ON_A_TEMP = 4200"
definition BOOST_ON_B_START :: nat where "BOOST_ON_B_START = 4"
definition BOOST_ON_B_END :: nat where "BOOST_ON_B_END = 7"
definition BOOST_ON_B_TEMP :: int where "BOOST_ON_B_TEMP = 4200"
definition BOOST_OFF_TEMP :: int where "BOOST_OFF_TEMP = 4600"

definition SHW_RINGBUF_NUM_ITEMS :: nat where "SHW_RINGBUF_NUM_ITEMS = 10"

section \<open>Single precision numbers\<close>

text \<open>
  \<open>float\<close> (and \<open>double\<close>, which has the same format on this board) is IEEE 754
  binary32. A finite value is the rational it denotes; infinities and NaN are one value,
  which every operation propagates. An operation yields the exact result rounded to the
  nearest value with a 24-bit significand, ties to the even significand; the unit of
  the last place is at least \<open>2^-149\<close>, and a rounded magnitude of \<open>2^128\<close> or more
  is infinite.
\<close>

datatype float = Finite rat | NonFinite

definition round_even :: "rat \<Rightarrow> int" where
  "round_even x =
     (let f = \<lfloor>x\<rfloor>; r = x - of_int f
      in if r < 1 / 2 then f
         else if r > 1 / 2 then f + 1
         else if even f then f else f + 1)"

definition f32_round :: "rat \<Rightarrow> float" where
  "f32_round x =
     (let y = \<bar>x\<bar> * 2 ^ 149;
          s = nat (bitlen \<lfloor>y\<rfloor> - 24);
          m = round_even (y / 2 ^ s);
          v = of_int m * 2 ^ s / 2 ^ 149
      in if v \<ge> 2 ^ 128 then NonFinite else Finite (sgn x * v))"

definition float_of_int :: "int \<Rightarrow> float" where
  "float_of_int k = f32_round (of_int k)"

definition float_mul :: "float \<Rightarrow> float \<Rightarrow> float" where
  "float_mul a b =
     (case (a, b) of
        (Finite x, Finite y) \<Rightarrow> f32_round (x * y)
      | _ \<Rightarrow> NonFinite)"

definition float_div :: "float \<Rightarrow> float \<Rightarrow> float" where
  "float_div a b =
     (case (a, b) of
        (Finite x, Finite y) \<Rightarrow> if y = 0 then NonFinite else f32_round (x / y)
      | _ \<Rightarrow> NonFinite)"

datatype fault = OutOfBounds | FloatToInt

text \<open>
  Conversion of a \<open>float\<close> to \<open>unsigned int\<close> drops the fraction; C leaves it
  undefined when the value is not finite or the integer does not fit.
\<close>

definition float_to_uint :: "float \<Rightarrow> fault + c_uint" where
  "float_to_uint a =
     (case a of
        Finite x \<Rightarrow>
          if 0 \<le> \<lfloor>x\<rfloor> \<and> \<lfloor>x\<rfloor> < 65536 then Inr (word_of_int \<lfloor>x\<rfloor>)
          else Inl FloatToInt
      | NonFinite \<Rightarrow> Inl FloatToInt)"

definition shw_hotwater_flowsensor_calibrationFactor :: float where
  "shw_hotwater_flowsensor_calibrationFactor = Finite (11 / 2)"

section \<open>Global variables\<close>

record globals =
  shw_ringbuf_offset :: byte
  shw_collector_temp_ringbuf :: "c_int list"
  shw_vat_temp_ringbuf :: "c_int list"
  last_avg_shw_collector_temp :: c_int
  last_avg_shw_vat_temp :: c_int
  shw_boost_state :: bool
  last_shw_boost_state :: bool
  shw_boost_override :: bool
  firsttime :: bool
  haveremoteudp :: bool
  remoteIP :: "byte list"
  remotePort :: c_uint
  shw_hotwater_flowsensor_pulsecount :: c_uint
  shw_boost_pulsecount :: c_uint
  shw_hotwater_flowsensor_flow_rate :: float
  shw_hotwater_flowsensor_flow_ml :: c_uint
  shw_hotwater_flowsensor_total_ml :: c_ulong
  shw_hotwater_flowsensor_oldtime :: c_ulong

text \<open>
  The two ring buffers are arrays of \<open>SHW_RINGBUF_NUM_ITEMS\<close> elements and the write
  offset indexes them. \<open>setup\<close> sets the offset to 0 and every pass reduces it modulo
  the capacity, so the offset stays below the capacity.
\<close>

definition ringbuf_ok :: "globals \<Rightarrow> bool" where
  "ringbuf_ok g \<longleftrightarrow>
     length (shw_collector_temp_ringbuf g) = SHW_RINGBUF_NUM_ITEMS \<and>
     length (shw_vat_temp_ringbuf g) = SHW_RINGBUF_NUM_ITEMS \<and>
     unat (shw_ringbuf_offset g) < SHW_RINGBUF_NUM_ITEMS"

section \<open>Temperature filtering and averaging (\<open>loop\<close>, the temperature block)\<close>

text \<open>
  Lines 434 to 442: the reading may move at most one degree away from the last average.
  The difference is a signed 16-bit subtraction; the model wraps where C leaves the
  overflow undefined.
\<close>

definition sanitise :: "c_int \<Rightarrow> c_int \<Rightarrow> c_int" where
  "sanitise temp last_avg =
     (if sint (temp - last_avg) > 100 then last_avg + 100
      else if sint (temp - last_avg) < - 100 then last_avg - 100
      else temp)"

text \<open>Lines 448 and 449: \<open>shw_ringbuf_offset++; shw_ringbuf_offset %= 10\<close> on a byte.\<close>

definition next_offset :: "byte \<Rightarrow> byte" where
  "next_offset off = (off + 1) mod word_of_nat SHW_RINGBUF_NUM_ITEMS"

text \<open>
  Lines 451 to 457: the slots are summed into a \<open>long\<close> (each \<open>int\<close> slot is sign
  extended) and the sum is divided by the capacity; C division truncates towards zero.
\<close>

definition ringbuf_sum :: "c_int list \<Rightarrow> c_long" where
  "ringbuf_sum buf =
     foldl (\<lambda>acc i. acc + scast (buf ! i)) 0 [0..<SHW_RINGBUF_NUM_ITEMS]"

definition long_div :: "c_long \<Rightarrow> c_long \<Rightarrow> c_long" where
  "long_div a b = word_of_int (sint a sdiv sint b)"

definition ringbuf_avg :: "c_int list \<Rightarrow> c_long" where
  "ringbuf_avg buf = long_div (ringbuf_sum buf) (word_of_nat SHW_RINGBUF_NUM_ITEMS)"

text \<open>Lines 461 to 468: the boost switch logic.\<close>

definition boost_switch :: "c_long \<Rightarrow> byte \<Rightarrow> globals \<Rightarrow> globals" where
  "boost_switch avg_shw_vat_temp hour g =
     (if sint avg_shw_vat_temp \<ge> BOOST_OFF_TEMP then
        g\<lparr>shw_boost_state := False, shw_boost_override := False\<rparr>
      else if shw_boost_override g \<or>
              ((unat hour \<ge> BOOST_ON_A_START \<and> unat hour < BOOST_ON_A_END) \<and>
                 sint avg_shw_vat_temp < BOOST_ON_A_TEMP) \<or>
              ((unat hour \<ge> BOOST_ON_B_START \<and> unat hour < BOOST_ON_B_END) \<and>
                 sint avg_shw_vat_temp < BOOST_ON_B_TEMP) then
        g\<lparr>shw_boost_state := True\<rparr>
      else g)"

text \<open>
  What one pass of the temperature block hands to the outside: the two averages, the
  level written to the relay pin (only when the state differs from the last reported
  one), the drained energy pulse count and whether a record was sent.
\<close>

record temp_result =
  avg_shw_collector_temp :: c_long
  avg_shw_vat_temp :: c_long
  relay_write :: "bool option"
  shw_boostpulses :: c_uint
  temp_reported :: bool

text \<open>Lines 446 to 449: both channels are stored at the shared offset, which then advances.\<close>

definition store_temps :: "c_int \<Rightarrow> c_int \<Rightarrow> globals \<Rightarrow> globals" where
  "store_temps collector_temp vat_temp g =
     g\<lparr>shw_collector_temp_ringbuf :=
         (shw_collector_temp_ringbuf g)[unat (shw_ringbuf_offset g) := collector_temp],
       shw_vat_temp_ringbuf :=
         (shw_vat_temp_ringbuf g)[unat (shw_ringbuf_offset g) := vat_temp],
       shw_ringbuf_offset := next_offset (shw_ringbuf_offset g)\<rparr>"

text \<open>
  Lines 492 to 538: a record is sent when something changed, and only then are the last
  averages and the last state updated. The \<open>int\<close> averages are promoted to \<open>long\<close>
  for the comparison, and the \<open>long\<close> averages are cut to \<open>int\<close> on assignment.
\<close>

definition report_temps :: "c_long \<Rightarrow> c_long \<Rightarrow> c_uint \<Rightarrow> globals \<Rightarrow> bool \<times> globals" where
  "report_temps avg_c avg_v pulses g =
     (if firsttime g \<or>
         sint avg_c \<noteq> sint (last_avg_shw_collector_temp g) \<or>
         sint avg_v \<noteq> sint (last_avg_shw_vat_temp g) \<or>
         shw_boost_state g \<noteq> last_shw_boost_state g \<or>
         pulses \<noteq> 0
      then (True, g\<lparr>last_avg_shw_collector_temp := ucast avg_c,
                      last_avg_shw_vat_temp := ucast avg_v,
                      last_shw_boost_state := shw_boost_state g\<rparr>)
      else (False, g))"

text \<open>
  Lines 430 to 538, given the two temperatures left by the sensor reads and the hour of
  the clock.
\<close>

definition temp_block :: "c_int \<Rightarrow> c_int \<Rightarrow> byte \<Rightarrow> globals \<Rightarrow> temp_result \<times> globals" where
  "temp_block collector_temp0 vat_temp0 hour g0 =
     (let collector_temp = sanitise collector_temp0 (last_avg_shw_collector_temp g0);
          vat_temp = sanitise vat_temp0 (last_avg_shw_vat_temp g0);
          g1 = store_temps collector_temp vat_temp g0;
          avg_c = ringbuf_avg (shw_collector_temp_ringbuf g1);
          avg_v = ringbuf_avg (shw_vat_temp_ringbuf g1);
          g2 = boost_switch avg_v hour g1;
          relay = (if shw_boost_state g2 \<noteq> last_shw_boost_state g2
                   then Some (shw_boost_state g2) else None);
          pulses = shw_boost_pulsecount g2;
          g3 = g2\<lparr>shw_boost_pulsecount := 0\<rparr>;
          (report, g4) = report_temps avg_c avg_v pulses g3
      in (\<lparr>avg_shw_collector_temp = avg_c, avg_shw_vat_temp = avg_v,
           relay_write = relay, shw_boostpulses = pulses, temp_reported = report\<rparr>, g4))"

section \<open>The sensor reader (\<open>getSaneCurrentTemp\<close>)\<close>

text \<open>
  A frame is the nine bytes read from the bus, \<open>data[0]\<close> to \<open>data[8]\<close>. The
  checksum routine \<open>OneWire::crc8\<close> belongs to the OneWire library and is a parameter.
\<close>

type_synonym frame = "nat \<Rightarrow> byte"
type_synonym crc = "byte list \<Rightarrow> byte"

text \<open>
  Lines 246 to 253. \<open>TReading\<close> is a \<open>uint16_t\<close>, so the two's complement, the
  product \<open>6 * TReading\<close> and the sum are unsigned 16-bit operations and wrap; the
  result is stored into the \<open>int\<close> \<open>tmp\<close>.
\<close>

definition decode_temp :: "frame \<Rightarrow> c_int" where
  "decode_temp data =
     (let TReading0 = push_bit 8 (ucast (data 1) :: 16 word) + ucast (data 0);
          sign = TReading0 AND 0x8000;
          TReading = (if sign \<noteq> 0 then (TReading0 XOR 0xffff) + 1 else TReading0);
          tmp = 6 * TReading + TReading div 4
      in if sign \<noteq> 0 then - tmp else tmp)"

text \<open>Line 255: the range check.\<close>

definition temp_in_range :: "c_int \<Rightarrow> bool" where
  "temp_in_range tmp \<longleftrightarrow> sint tmp > - 500 \<and> sint tmp < 10000"

text \<open>One pass of the loop body: \<open>Some\<close> of the value stored through \<open>temp\<close>,
  or \<open>None\<close> after a checksum error or a reading out of range.\<close>

definition reading :: "crc \<Rightarrow> frame \<Rightarrow> c_int option" where
  "reading crc8 data =
     (if crc8 (map data [0..<8]) \<noteq> data 8 then None
      else let tmp = decode_temp data
           in if temp_in_range tmp then Some tmp else None)"

text \<open>
  The \<open>for\<close> loop of line 224, from index \<open>i\<close>; \<open>bus i\<close> is the frame the
  sensor delivers on reading \<open>i\<close>. The second component counts the readings taken.
\<close>

function sane_loop :: "crc \<Rightarrow> (nat \<Rightarrow> frame) \<Rightarrow> nat \<Rightarrow> c_int option \<times> nat" where
  "sane_loop crc8 bus i =
     (if i < 5 then
        (case reading crc8 (bus i) of
           Some tmp \<Rightarrow> (Some tmp, Suc i)
         | None \<Rightarrow> sane_loop crc8 bus (Suc i))
      else (None, i))"
  by pat_completeness auto
termination
  by (relation "measure (\<lambda>(crc8, bus, i). 5 - i)") auto

declare sane_loop.simps [simp del]

text \<open>
  The function returns 1 or 0, the content of \<open>*temp\<close> afterwards and the number of
  readings taken.
\<close>

definition getSaneCurrentTemp :: "crc \<Rightarrow> (nat \<Rightarrow> frame) \<Rightarrow> c_int \<Rightarrow> int \<times> c_int \<times> nat" where
  "getSaneCurrentTemp crc8 bus temp =
     (case sane_loop crc8 bus 0 of
        (Some tmp, n) \<Rightarrow> (1, tmp, n)
      | (None, n) \<Rightarrow> (0, temp, n))"

text \<open>
  Lines 421 and 422 (and 426, 427 for the vat): the caller loads the local with the last
  average of the channel and lets the reader overwrite it.
\<close>

definition read_channel :: "crc \<Rightarrow> (nat \<Rightarrow> frame) \<Rightarrow> c_int \<Rightarrow> c_int" where
  "read_channel crc8 bus last_avg = fst (snd (getSaneCurrentTemp crc8 bus last_avg))"

section \<open>The once per second gate (line 360)\<close>

definition gate :: "c_ulong \<Rightarrow> globals \<Rightarrow> bool" where
  "gate millis g \<longleftrightarrow> uint (millis - shw_hotwater_flowsensor_oldtime g) > 1000"

section \<open>Inbound packets (lines 649 to 689)\<close>

abbreviation NUL :: char where "NUL \<equiv> CHR 0x00"

text \<open>
  \<open>strcmp\<close> on two character arrays: it walks both until they differ or both hold the
  terminator. Reading past the end of an array is a fault.
\<close>

fun strcmp :: "char list \<Rightarrow> char list \<Rightarrow> fault + int" where
  "strcmp (a # as) (b # bs) =
     (if a \<noteq> b then Inr (int (of_char a) - int (of_char b))
      else if a = NUL then Inr 0
      else strcmp as bs)"
| "strcmp _ _ = Inl OutOfBounds"

text \<open>A string literal of the source is the array of its characters and a terminator.\<close>

definition lit :: "string \<Rightarrow> char list" where
  "lit s = s @ [NUL]"

text \<open>
  \<open>Udp.read(packetBuffer, UDP_TX_PACKET_MAX_SIZE)\<close> copies at most the capacity of the
  buffer; the rest of the local array keeps what the stack held (\<open>junk\<close>).
\<close>

definition udp_read :: "char list \<Rightarrow> char list \<Rightarrow> char list" where
  "udp_read junk payload =
     take (length junk) payload @ drop (length payload) junk"

text \<open>
  The packet block for a datagram with the given payload; \<open>parsePacket\<close> returns its
  size. The capacity \<open>UDP_TX_PACKET_MAX_SIZE\<close> comes from the Ethernet library and is
  the length of \<open>junk\<close>, the local array before the read. The result carries the lines
  printed after \<open>Pkt=\<close>.
\<close>

definition packet_block :: "char list \<Rightarrow> byte list \<Rightarrow> c_uint \<Rightarrow> char list \<Rightarrow> globals \<Rightarrow>
    fault + (string list \<times> globals)" where
  "packet_block junk ip port payload g0 =
     (let packetSize = length payload in
      if packetSize = 0 then Inr ([], g0)
      else
        let g1 = g0\<lparr>remoteIP := ip, remotePort := port, haveremoteudp := True\<rparr>;
            buf = udp_read junk payload
        in if packetSize \<ge> length buf then Inl OutOfBounds
           else
             let packetBuffer = buf[packetSize := NUL];
                 g2 = g1\<lparr>firsttime := True\<rparr>
             in case strcmp packetBuffer (lit ''BOOST_ON'') of
                  Inl f \<Rightarrow> Inl f
                | Inr c1 \<Rightarrow>
                    if c1 = 0 then
                      Inr ([''BOOST_ON''], g2\<lparr>shw_boost_override := True\<rparr>)
                    else
                      (case strcmp packetBuffer (lit ''BOOST_OFF'') of
                         Inl f \<Rightarrow> Inl f
                       | Inr c2 \<Rightarrow>
                           if c2 = 0 then
                             Inr ([''BOOST_OFF''],
                                  g2\<lparr>shw_boost_state := False, shw_boost_override := False\<rparr>)
                           else Inr ([], g2)))"

section \<open>Pulse counters (the two interrupt handlers)\<close>

definition shw_hotwater_interrupt_handler :: "globals \<Rightarrow> globals" where
  "shw_hotwater_interrupt_handler g =
     g\<lparr>shw_hotwater_flowsensor_pulsecount := shw_hotwater_flowsensor_pulsecount g + 1\<rparr>"

definition shw_boostpulse_interrupt_handler :: "globals \<Rightarrow> globals" where
  "shw_boostpulse_interrupt_handler g =
     g\<lparr>shw_boost_pulsecount := shw_boost_pulsecount g + 1\<rparr>"

section \<open>Flow integration (lines 546 to 633)\<close>

record flow_result =
  flow_rate :: float
  flow_ml :: c_uint
  flow_reported :: bool

text \<open>
  \<open>millis1\<close> is the clock at line 553 and \<open>millis2\<close> the clock at line 561. The
  elapsed time and the pulse count are converted to \<open>float\<close>, as are the integer
  constants 60 and 1000 of line 566.
\<close>

definition flow_block :: "c_ulong \<Rightarrow> c_ulong \<Rightarrow> globals \<Rightarrow> fault + (flow_result \<times> globals)" where
  "flow_block millis1 millis2 g0 =
     (let rate =
            float_div
              (float_mul
                 (float_div (Finite 1000)
                    (float_of_int (uint (millis1 - shw_hotwater_flowsensor_oldtime g0))))
                 (float_of_int (uint (shw_hotwater_flowsensor_pulsecount g0))))
              shw_hotwater_flowsensor_calibrationFactor;
          g1 = g0\<lparr>shw_hotwater_flowsensor_flow_rate := rate,
                  shw_hotwater_flowsensor_oldtime := millis2\<rparr>
      in case float_to_uint (float_mul (float_div rate (float_of_int 60)) (float_of_int 1000)) of
           Inl f \<Rightarrow> Inl f
         | Inr ml \<Rightarrow>
             let g2 = g1\<lparr>shw_hotwater_flowsensor_flow_ml := ml,
                         shw_hotwater_flowsensor_total_ml :=
                           shw_hotwater_flowsensor_total_ml g1 + ucast ml,
                         shw_hotwater_flowsensor_pulsecount := 0\<rparr>;
                 report = (firsttime g2 \<or> (case rate of Finite x \<Rightarrow> x > 0 | NonFinite \<Rightarrow> False));
                 g3 = g2\<lparr>firsttime := False\<rparr>
             in Inr (\<lparr>flow_rate = rate, flow_ml = ml, flow_reported = report\<rparr>, g3))"

section \<open>The clock (lines 370 to 392)\<close>

definition bcdToDec :: "byte \<Rightarrow> byte" where
  "bcdToDec val = (val div 16 * 10) + (val mod 16)"

record rtc =
  second :: byte
  minute :: byte
  hour :: byte
  dayofweek :: byte
  day :: byte
  month :: byte
  year :: byte

text \<open>
  \<open>wire i n\<close> is the \<open>n\<close>-th register byte of the \<open>i\<close>-th transmission. The
  \<open>do\<close> loop repeats until the fields are plausible, and does not end when they never
  are.
\<close>

definition rtc_decode :: "(nat \<Rightarrow> byte) \<Rightarrow> rtc" where
  "rtc_decode regs =
     \<lparr>second = bcdToDec (regs 0 AND 0x7f), minute = bcdToDec (regs 1),
      hour = bcdToDec (regs 2 AND 0x3f), dayofweek = bcdToDec (regs 3),
      day = bcdToDec (regs 4), month = bcdToDec (regs 5), year = bcdToDec (regs 6)\<rparr>"

definition rtc_valid :: "rtc \<Rightarrow> bool" where
  "rtc_valid t \<longleftrightarrow>
     uint (hour t) \<le> 23 \<and> uint (minute t) \<le> 59 \<and> uint (second t) \<le> 59 \<and>
     uint (year t) \<le> 100 \<and> uint (month t) \<le> 12 \<and> uint (day t) \<le> 31"

partial_function (option) rtc_loop :: "(nat \<Rightarrow> nat \<Rightarrow> byte) \<Rightarrow> nat \<Rightarrow> rtc option" where
  "rtc_loop wire i =
     (if rtc_valid (rtc_decode (wire i)) then Some (rtc_decode (wire i))
      else rtc_loop wire (Suc i))"

declare rtc_loop.simps [code]

section \<open>Initialisation (the function \<open>setup\<close> of the sketch)\<close>

text \<open>The globals as their initialisers leave them; the others start at zero.\<close>

definition startup :: globals where
  "startup =
     \<lparr>shw_ringbuf_offset = 0,
      shw_collector_temp_ringbuf = replicate SHW_RINGBUF_NUM_ITEMS 0,
      shw_vat_temp_ringbuf = replicate SHW_RINGBUF_NUM_ITEMS 0,
      last_avg_shw_collector_temp = 0,
      last_avg_shw_vat_temp = 0,
      shw_boost_state = False,
      last_shw_boost_state = False,
      shw_boost_override = False,
      firsttime = True,
      haveremoteudp = True,
      remoteIP = [192, 168, 2, 160],
      remotePort = 8888,
      shw_hotwater_flowsensor_pulsecount = 0,
      shw_boost_pulsecount = 0,
      shw_hotwater_flowsensor_flow_rate = Finite 0,
      shw_hotwater_flowsensor_flow_ml = 0,
      shw_hotwater_flowsensor_total_ml = 0,
      shw_hotwater_flowsensor_oldtime = 0\<rparr>"

text \<open>Lines 323 to 326: every slot of both buffers is preloaded.\<close>

definition preload :: "globals \<Rightarrow> globals" where
  "preload g =
     foldl (\<lambda>g i. g\<lparr>shw_collector_temp_ringbuf :=
                        (shw_collector_temp_ringbuf g)[i := last_avg_shw_collector_temp g],
                      shw_vat_temp_ringbuf :=
                        (shw_vat_temp_ringbuf g)[i := last_avg_shw_vat_temp g]\<rparr>)
       g [0..<SHW_RINGBUF_NUM_ITEMS]"

definition setup_sketch :: "crc \<Rightarrow> (nat \<Rightarrow> frame) \<Rightarrow> (nat \<Rightarrow> frame) \<Rightarrow> globals \<Rightarrow> globals" where
  "setup_sketch crc8 bus_collector bus_vat g0 =
     (let g1 = g0\<lparr>shw_boost_state := False, last_shw_boost_state := False,
                  shw_boost_override := False\<rparr>;
          g2 = g1\<lparr>last_avg_shw_collector_temp :=
                    read_channel crc8 bus_collector (last_avg_shw_collector_temp g1)\<rparr>;
          g3 = g2\<lparr>last_avg_shw_vat_temp :=
                    read_channel crc8 bus_vat (last_avg_shw_vat_temp g2)\<rparr>;
          g4 = preload g3
      in g4\<lparr>shw_ringbuf_offset := 0,
            shw_hotwater_flowsensor_pulsecount := 0,
            shw_boost_pulsecount := 0,
            shw_hotwater_flowsensor_flow_rate := Finite 0,
            shw_hotwater_flowsensor_flow_ml := 0,
            shw_hotwater_flowsensor_total_ml := 0,
            shw_hotwater_flowsensor_oldtime := 0\<rparr>)"

section \<open>One iteration (the function \<open>loop\<close> of the sketch)\<close>

text \<open>
  What one iteration meets: the clock at line 360, the clock registers, the frames of
  the two sensors, the pulses counted by each handler before its counter is drained,
  the clock at lines 553 and 561, and the datagram waiting (an empty payload when
  \<open>parsePacket\<close> returns 0) with its sender and the local array before the read.
\<close>

record loop_in =
  millis_gate :: c_ulong
  in_wire :: "nat \<Rightarrow> nat \<Rightarrow> byte"
  in_crc8 :: crc
  in_bus_collector :: "nat \<Rightarrow> frame"
  in_bus_vat :: "nat \<Rightarrow> frame"
  boost_pulses :: nat
  flow_pulses :: nat
  millis_rate :: c_ulong
  millis_old :: c_ulong
  in_stack :: "char list"
  sender_ip :: "byte list"
  sender_port :: c_uint
  in_payload :: "char list"

record pass_result =
  clock :: rtc
  temps :: temp_result
  flow :: flow_result

text \<open>
  The body guarded by line 360. \<open>None\<close>: the clock loop does not end. Otherwise a
  fault, or the pass (if one ran) and the globals after it.
\<close>

definition loop_pass :: "loop_in \<Rightarrow> globals \<Rightarrow> (fault + (pass_result option \<times> globals)) option" where
  "loop_pass inp g0 =
     (if gate (millis_gate inp) g0 then
        (case rtc_loop (in_wire inp) 0 of
           None \<Rightarrow> None
         | Some t \<Rightarrow>
             let collector_temp =
                   read_channel (in_crc8 inp) (in_bus_collector inp) (last_avg_shw_collector_temp g0);
                 vat_temp = read_channel (in_crc8 inp) (in_bus_vat inp) (last_avg_shw_vat_temp g0);
                 g1 = (shw_boostpulse_interrupt_handler ^^ boost_pulses inp) g0;
                 (tr, g2) = temp_block collector_temp vat_temp (hour t) g1;
                 g3 = (shw_hotwater_interrupt_handler ^^ flow_pulses inp) g2
             in case flow_block (millis_rate inp) (millis_old inp) g3 of
                  Inl f \<Rightarrow> Some (Inl f)
                | Inr (fr, g4) \<Rightarrow>
                    Some (Inr (Some \<lparr>clock = t, temps = tr, flow = fr\<rparr>, g4)))
      else Some (Inr (None, g0)))"

definition loop :: "loop_in \<Rightarrow> globals \<Rightarrow>
    (fault + (pass_result option \<times> string list \<times> globals)) option" where
  "loop inp g0 =
     (case loop_pass inp g0 of
        None \<Rightarrow> None
      | Some (Inl f) \<Rightarrow> Some (Inl f)
      | Some (Inr (pass, g1)) \<Rightarrow>
          (case packet_block (in_stack inp) (sender_ip inp) (sender_port inp) (in_payload inp) g1 of
             Inl f \<Rightarrow> Some (Inl f)
           | Inr (lines, g2) \<Rightarrow> Some (Inr (pass, lines, g2))))"

section \<open>The boost rule as the specification words it\<close>

datatype BoostState = OFF | ON

text \<open>
  The three prioritised rules over the smoothed vat temperature \<open>T\<close>, the hour \<open>h\<close>,
  the state and the override flag.
\<close>

definition boost_rule :: "int \<Rightarrow> nat \<Rightarrow> BoostState \<times> bool \<Rightarrow> BoostState \<times> bool" where
  "boost_rule T h s =
     (if T \<ge> 4600 then (OFF, False)
      else if snd s \<or> (14 \<le> h \<and> h < 20 \<and> T < 4200) \<or> (4 \<le> h \<and> h < 7 \<and> T < 4200)
      then (ON, snd s)
      else s)"

definition boost_of :: "globals \<Rightarrow> BoostState \<times> bool" where
  "boost_of g = (if shw_boost_state g then ON else OFF, shw_boost_override g)"

section \<open>Auxiliary notions for the properties\<close>

text \<open>
  The subtraction of line 434 (and 436, 439, 441) is defined in C when the difference
  of the two \<open>int\<close> operands fits an \<open>int\<close>.
\<close>

definition int_sub_defined :: "c_int \<Rightarrow> c_int \<Rightarrow> bool" where
  "int_sub_defined r a \<longleftrightarrow> - 32768 \<le> sint r - sint a \<and> sint r - sint a \<le> 32767"

text \<open>
  A state of the running sketch for the examples: collector at 20.00 degrees, vat at
  43.00 degrees, booster on, write offset 3.
\<close>

definition warm_tank :: globals where
  "warm_tank =
     startup\<lparr>shw_collector_temp_ringbuf := replicate SHW_RINGBUF_NUM_ITEMS 2000,
             shw_vat_temp_ringbuf := replicate SHW_RINGBUF_NUM_ITEMS 4300,
             last_avg_shw_collector_temp := 2000,
             last_avg_shw_vat_temp := 4300,
             shw_ringbuf_offset := 3,
             shw_boost_state := True,
             last_shw_boost_state := True,
             firsttime := False\<rparr>"

text \<open>
  The checksum of the OneWire library (its bitwise variant: polynomial \<open>0x8C\<close>, least
  significant bit first), to have a concrete \<open>crc8\<close> in the examples.
\<close>

fun crc8_bits :: "nat \<Rightarrow> byte \<Rightarrow> byte \<Rightarrow> byte" where
  "crc8_bits 0 crc inbyte = crc"
| "crc8_bits (Suc n) crc inbyte =
     crc8_bits n
       (if (crc XOR inbyte) AND 0x01 \<noteq> 0 then drop_bit 1 crc XOR 0x8C else drop_bit 1 crc)
       (drop_bit 1 inbyte)"

definition onewire_crc8 :: crc where
  "onewire_crc8 bs = foldl (crc8_bits 8) 0 bs"

text \<open>A frame from the list of its bytes.\<close>

definition frame_of :: "byte list \<Rightarrow> frame" where
  "frame_of bs n = (if n < length bs then bs ! n else 0)"

text \<open>
  Example frames with a valid checksum: 25.06 degrees, 100.00 degrees, -5.00 degrees;
  and the first of them with a damaged checksum.
\<close>

definition frame_25 :: frame where
  "frame_25 = frame_of [0x91, 0x01, 0x4B, 0x46, 0x7F, 0xFF, 0x0F, 0x10, 0x25]"

definition frame_100 :: frame where
  "frame_100 = frame_of [0x40, 0x06, 0x4B, 0x46, 0x7F, 0xFF, 0x0C, 0x10, 0x0F]"

definition frame_minus5 :: frame where
  "frame_minus5 = frame_of [0xB0, 0xFF, 0x4B, 0x46, 0x7F, 0xFF, 0x0C, 0x10, 0xA0]"



text \<open>
  The guarded body of \<open>loop\<close> was entered: it did not come back, or it came back with
  a fault or with a pass.
\<close>

definition pass_started :: "(fault + (pass_result option \<times> globals)) option \<Rightarrow> bool" where
  "pass_started r =
     (case r of
        None \<Rightarrow> True
      | Some (Inl f) \<Rightarrow> True
      | Some (Inr (p, g)) \<Rightarrow> p \<noteq> None)"

text \<open>
  An iteration at clock \<open>m\<close> with a clock chip reading 22:00:00 on 2018-03-11, both
  sensors at 25.06 degrees, no pulses and no datagram.
\<close>

definition idle_in :: "c_ulong \<Rightarrow> loop_in" where
  "idle_in m =
     \<lparr>millis_gate = m,
      in_wire = (\<lambda>i. frame_of [0x00, 0x00, 0x22, 0x07, 0x11, 0x03, 0x18]),
      in_crc8 = onewire_crc8,
      in_bus_collector = (\<lambda>i. frame_25),
      in_bus_vat = (\<lambda>i. frame_25),
      boost_pulses = 0,
      flow_pulses = 0,
      millis_rate = m + 2000,
      millis_old = m + 2000,
      in_stack = replicate 24 (CHR ''?''),
      sender_ip = [192, 168, 2, 160],
      sender_port = 8888,
      in_payload = []\<rparr>"

text \<open>
  The string a character array holds, as \<open>strcmp\<close> and \<open>Serial.println\<close> read it:
  the characters before the first terminator.
\<close>

definition c_str :: "char list \<Rightarrow> string" where
  "c_str buf = takeWhile (\<lambda>c. c \<noteq> NUL) buf"

text \<open>What the packet block does to the globals before it looks at the command.\<close>

definition packet_seen :: "byte list \<Rightarrow> c_uint \<Rightarrow> globals \<Rightarrow> globals" where
  "packet_seen ip port g =
     g\<lparr>remoteIP := ip, remotePort := port, haveremoteudp := True, firsttime := True\<rparr>"

text \<open>
  Consecutive passes of the temperature block, one per list element: the two
  temperatures left by the sensor reads and the hour. The other blocks of an iteration
  do not touch the buffers, the offset or the last averages.
\<close>

fun temp_cycles :: "(c_int \<times> c_int \<times> byte) list \<Rightarrow> globals \<Rightarrow> globals" where
  "temp_cycles [] g = g"
| "temp_cycles ((c, v, h) # xs) g = temp_cycles xs (snd (temp_block c v h g))"

text \<open>The clamp leaves the reading of every one of these passes as it is.\<close>

fun clamp_free :: "(c_int \<times> c_int \<times> byte) list \<Rightarrow> globals \<Rightarrow> bool" where
  "clamp_free [] g = True"
| "clamp_free ((c, v, h) # xs) g =
     (sanitise c (last_avg_shw_collector_temp g) = c \<and>
      sanitise v (last_avg_shw_vat_temp g) = v \<and>
      clamp_free xs (snd (temp_block c v h g)))"

text \<open>\<open>n\<close> stores of the value \<open>w\<close> into one buffer, starting at offset \<open>off\<close>.\<close>

fun stores :: "nat \<Rightarrow> nat \<Rightarrow> 'a \<Rightarrow> 'a list \<Rightarrow> 'a list" where
  "stores 0 off w buf = buf"
| "stores (Suc n) off w buf =
     stores n (if Suc off = 10 then 0 else Suc off) w (buf[off := w])"

section \<open>Machine arithmetic\<close>

lemmas boost_consts =
  BOOST_ON_A_START_def BOOST_ON_A_END_def BOOST_ON_A_TEMP_def
  BOOST_ON_B_START_def BOOST_ON_B_END_def BOOST_ON_B_TEMP_def BOOST_OFF_TEMP_def

lemma sint16_range: "- 32768 \<le> sint (x :: 16 word) \<and> sint x \<le> 32767"
  using sint_ge [of x] sint_lt [of x] by simp

lemma sint16_sub:
  "- 32768 \<le> sint r - sint a \<Longrightarrow> sint r - sint a \<le> 32767 \<Longrightarrow>
   sint (r - a :: 16 word) = sint r - sint a"
  by (simp add: sint_word_ariths signed_take_bit_int_eq_self)

lemma sint16_add:
  "- 32768 \<le> sint r + sint a \<Longrightarrow> sint r + sint a \<le> 32767 \<Longrightarrow>
   sint (r + a :: 16 word) = sint r + sint a"
  by (simp add: sint_word_ariths signed_take_bit_int_eq_self)

lemma sint32_of_int:
  "- 2147483648 \<le> k \<Longrightarrow> k \<le> 2147483647 \<Longrightarrow> sint (word_of_int k :: 32 word) = k"
  by (simp add: sint_sbintrunc' signed_take_bit_int_eq_self)

lemma sdiv_10_times: "(10 * k) sdiv 10 = (k :: int)"
proof -
  consider "k < 0" | "k = 0" | "0 < k" by linarith
  then show ?thesis
  proof cases
    case 1
    then have "sgn (10 * k) = - 1" "\<bar>10 * k\<bar> = 10 * (- k)" by simp_all
    then show ?thesis by (simp add: signed_divide_int_def)
  next
    case 2
    then show ?thesis by simp
  next
    case 3
    then have "sgn (10 * k) = 1" "\<bar>10 * k\<bar> = 10 * k" by simp_all
    then show ?thesis by (simp add: signed_divide_int_def)
  qed
qed

section \<open>The clamp\<close>

text \<open>
  As long as the difference of the reading and the last average fits the 16-bit
  \<open>int\<close>, the clamped value is within 100 of the last average.
\<close>

lemma sanitise_bound:
  assumes "- 32768 \<le> sint r - sint a" "sint r - sint a \<le> 32767"
  shows "\<bar>sint (sanitise r a) - sint a\<bar> \<le> 100"
proof -
  have d: "sint (r - a) = sint r - sint a"
    using assms by (rule sint16_sub)
  have rr: "- 32768 \<le> sint r" "sint r \<le> 32767"
    using sint16_range [of r] by simp_all
  show ?thesis
  proof (cases "sint (r - a) > 100")
    case True
    then have "sint (a + 100) = sint a + sint (100 :: 16 word)"
      using d rr sint16_range [of a] by (intro sint16_add) simp_all
    with True show ?thesis by (simp add: sanitise_def)
  next
    case False
    show ?thesis
    proof (cases "sint (r - a) < - 100")
      case True
      then have "sint (a - 100) = sint a - sint (100 :: 16 word)"
        using d rr sint16_range [of a] by (intro sint16_sub) simp_all
      with True False show ?thesis by (simp add: sanitise_def)
    next
      case F2: False
      with False d show ?thesis by (simp add: sanitise_def)
    qed
  qed
qed

lemma sanitise_id:
  assumes "\<bar>sint r - sint a\<bar> \<le> 100"
  shows "sanitise r a = r"
proof -
  have "sint (r - a) = sint r - sint a"
    using assms by (intro sint16_sub) simp_all
  with assms show ?thesis by (auto simp: sanitise_def)
qed

text \<open>Outside that band the clamped value is exactly 100 away from the last average.\<close>

lemma sanitise_high:
  assumes "- 32768 \<le> sint r - sint a" "sint r - sint a \<le> 32767" "100 < sint r - sint a"
  shows "sint (sanitise r a) = sint a + 100"
proof -
  have d: "sint (r - a) = sint r - sint a"
    using assms(1,2) by (rule sint16_sub)
  have "sint (a + 100) = sint a + sint (100 :: 16 word)"
    using assms sint16_range [of r] sint16_range [of a] by (intro sint16_add) simp_all
  with d assms(3) show ?thesis by (simp add: sanitise_def)
qed

lemma sanitise_low:
  assumes "- 32768 \<le> sint r - sint a" "sint r - sint a \<le> 32767" "sint r - sint a < - 100"
  shows "sint (sanitise r a) = sint a - 100"
proof -
  have d: "sint (r - a) = sint r - sint a"
    using assms(1,2) by (rule sint16_sub)
  have "sint (a - 100) = sint a - sint (100 :: 16 word)"
    using assms sint16_range [of r] sint16_range [of a] by (intro sint16_sub) simp_all
  with d assms(3) show ?thesis by (simp add: sanitise_def)
qed

section \<open>The ring buffers and their mean\<close>

lemma foldl_nth_sum:
  "foldl (\<lambda>acc i. acc + f (buf ! i)) a [0..<length buf] = a + sum_list (map f buf)"
proof (induction buf arbitrary: a rule: rev_induct)
  case Nil
  show ?case by simp
next
  case (snoc x xs)
  have "foldl (\<lambda>acc i. acc + f ((xs @ [x]) ! i)) a [0..<length xs] =
        foldl (\<lambda>acc i. acc + f (xs ! i)) a [0..<length xs]"
    by (rule foldl_cong) (simp_all add: nth_append)
  with snoc show ?case by (simp add: add.assoc)
qed

lemma ringbuf_sum_list:
  "length buf = SHW_RINGBUF_NUM_ITEMS \<Longrightarrow>
   ringbuf_sum buf = sum_list (map scast buf)"
  using foldl_nth_sum [of "scast :: 16 word \<Rightarrow> 32 word" buf 0]
  by (simp add: ringbuf_sum_def)

lemma sum_list_scast:
  "sum_list (map scast (buf :: 16 word list)) = (word_of_int (sum_list (map sint buf)) :: 32 word)"
  by (induction buf) simp_all

lemma sum_list_sint_bound:
  "\<bar>sum_list (map sint (buf :: 16 word list))\<bar> \<le> 32768 * int (length buf)"
proof (induction buf)
  case Nil
  show ?case by simp
next
  case (Cons x xs)
  with sint16_range [of x] show ?case by (simp add: algebra_simps abs_le_iff)
qed

lemma ringbuf_sum_sint:
  assumes "length buf = SHW_RINGBUF_NUM_ITEMS"
  shows "sint (ringbuf_sum buf) = sum_list (map sint buf)"
proof -
  have "\<bar>sum_list (map sint buf)\<bar> \<le> 327680"
    using sum_list_sint_bound [of buf] assms by (simp add: SHW_RINGBUF_NUM_ITEMS_def)
  then show ?thesis
    by (simp add: ringbuf_sum_list [OF assms] sum_list_scast sint32_of_int abs_le_iff)
qed

text \<open>The average is the sum of the slots divided by ten, rounded towards zero.\<close>

lemma ringbuf_avg_mean:
  assumes "length buf = SHW_RINGBUF_NUM_ITEMS"
  shows "sint (ringbuf_avg buf) = sum_list (map sint buf) sdiv 10"
proof -
  let ?S = "sum_list (map sint buf)"
  have b: "\<bar>?S\<bar> \<le> 327680"
    using sum_list_sint_bound [of buf] assms by (simp add: SHW_RINGBUF_NUM_ITEMS_def)
  have "?S sdiv 10 \<in> {- \<bar>?S\<bar>..\<bar>?S\<bar>}" by (rule sdiv_int_range)
  with b have "- 2147483648 \<le> ?S sdiv 10" "?S sdiv 10 \<le> 2147483647" by auto
  then have "sint (word_of_int (?S sdiv 10) :: 32 word) = ?S sdiv 10"
    by (rule sint32_of_int)
  then show ?thesis
    by (simp add: ringbuf_avg_def long_div_def ringbuf_sum_sint [OF assms]
        SHW_RINGBUF_NUM_ITEMS_def)
qed

lemma ringbuf_avg_replicate:
  "sint (ringbuf_avg (replicate SHW_RINGBUF_NUM_ITEMS v)) = sint v"
proof -
  have "sum_list (map sint (replicate SHW_RINGBUF_NUM_ITEMS v)) = 10 * sint v"
    by (simp add: sum_list_replicate SHW_RINGBUF_NUM_ITEMS_def)
  then show ?thesis
    by (simp add: ringbuf_avg_mean sdiv_10_times)
qed

section \<open>The temperature block, field by field\<close>

lemma boost_switch_rule:
  "boost_of (boost_switch T h g) = boost_rule (sint T) (unat h) (boost_of g)"
  by (auto simp: boost_switch_def boost_rule_def boost_of_def boost_consts)

lemma boost_switch_other:
  "shw_collector_temp_ringbuf (boost_switch T h g) = shw_collector_temp_ringbuf g"
  "shw_vat_temp_ringbuf (boost_switch T h g) = shw_vat_temp_ringbuf g"
  "shw_ringbuf_offset (boost_switch T h g) = shw_ringbuf_offset g"
  "last_avg_shw_collector_temp (boost_switch T h g) = last_avg_shw_collector_temp g"
  "last_avg_shw_vat_temp (boost_switch T h g) = last_avg_shw_vat_temp g"
  by (simp_all add: boost_switch_def)

lemma report_temps_other:
  "shw_collector_temp_ringbuf (snd (report_temps a b p g)) = shw_collector_temp_ringbuf g"
  "shw_vat_temp_ringbuf (snd (report_temps a b p g)) = shw_vat_temp_ringbuf g"
  "shw_ringbuf_offset (snd (report_temps a b p g)) = shw_ringbuf_offset g"
  "shw_boost_state (snd (report_temps a b p g)) = shw_boost_state g"
  "shw_boost_override (snd (report_temps a b p g)) = shw_boost_override g"
  by (simp_all add: report_temps_def)

lemma store_temps_simps:
  "shw_collector_temp_ringbuf (store_temps c v g) =
     (shw_collector_temp_ringbuf g)[unat (shw_ringbuf_offset g) := c]"
  "shw_vat_temp_ringbuf (store_temps c v g) =
     (shw_vat_temp_ringbuf g)[unat (shw_ringbuf_offset g) := v]"
  "shw_ringbuf_offset (store_temps c v g) = next_offset (shw_ringbuf_offset g)"
  "shw_boost_state (store_temps c v g) = shw_boost_state g"
  "shw_boost_override (store_temps c v g) = shw_boost_override g"
  "last_avg_shw_collector_temp (store_temps c v g) = last_avg_shw_collector_temp g"
  "last_avg_shw_vat_temp (store_temps c v g) = last_avg_shw_vat_temp g"
  by (simp_all add: store_temps_def)

lemmas temp_block_unfold =
  temp_block_def Let_def split_beta report_temps_other boost_switch_other store_temps_simps

lemma temp_block_collector_buf:
  "shw_collector_temp_ringbuf (snd (temp_block c v h g)) =
     (shw_collector_temp_ringbuf g)[unat (shw_ringbuf_offset g) :=
        sanitise c (last_avg_shw_collector_temp g)]"
  by (simp add: temp_block_unfold)

lemma temp_block_vat_buf:
  "shw_vat_temp_ringbuf (snd (temp_block c v h g)) =
     (shw_vat_temp_ringbuf g)[unat (shw_ringbuf_offset g) :=
        sanitise v (last_avg_shw_vat_temp g)]"
  by (simp add: temp_block_unfold)

lemma temp_block_offset:
  "shw_ringbuf_offset (snd (temp_block c v h g)) = next_offset (shw_ringbuf_offset g)"
  by (simp add: temp_block_unfold)

lemma temp_block_avg:
  "avg_shw_collector_temp (fst (temp_block c v h g)) =
     ringbuf_avg (shw_collector_temp_ringbuf (snd (temp_block c v h g)))"
  "avg_shw_vat_temp (fst (temp_block c v h g)) =
     ringbuf_avg (shw_vat_temp_ringbuf (snd (temp_block c v h g)))"
  by (simp_all add: temp_block_unfold)

lemma boost_of_cong:
  "shw_boost_state g = shw_boost_state g' \<Longrightarrow> shw_boost_override g = shw_boost_override g' \<Longrightarrow>
   boost_of g = boost_of g'"
  by (simp add: boost_of_def)

lemma boost_switch_cong:
  "shw_boost_state g = shw_boost_state g' \<Longrightarrow> shw_boost_override g = shw_boost_override g' \<Longrightarrow>
   boost_of (boost_switch T h g) = boost_of (boost_switch T h g')"
  by (simp only: boost_switch_rule) (simp add: boost_of_def)

lemma temp_block_boost:
  "boost_of (snd (temp_block c v h g)) =
     boost_rule (sint (avg_shw_vat_temp (fst (temp_block c v h g)))) (unat h) (boost_of g)"
proof -
  let ?g1 = "store_temps (sanitise c (last_avg_shw_collector_temp g))
               (sanitise v (last_avg_shw_vat_temp g)) g"
  let ?T = "ringbuf_avg (shw_vat_temp_ringbuf ?g1)"
  have T: "avg_shw_vat_temp (fst (temp_block c v h g)) = ?T"
    by (simp add: temp_block_def Let_def split_beta)
  have "boost_of (snd (temp_block c v h g)) = boost_of (boost_switch ?T h ?g1)"
    by (rule boost_of_cong)
      (simp_all add: temp_block_def Let_def split_beta report_temps_other)
  also have "\<dots> = boost_of (boost_switch ?T h g)"
    by (rule boost_switch_cong) (simp_all add: store_temps_simps)
  finally show ?thesis
    by (simp only: T boost_switch_rule)
qed

section \<open>The boost switch\<close>

text \<open>
  C1. In every pass of the temperature block the boost state and the override flag
  follow the three prioritised rules, evaluated on the vat average \<open>T\<close> computed in
  that pass and on the hour \<open>h\<close>: \<open>T \<ge> 4600\<close> switches off and clears the
  override; otherwise an active override, or \<open>T < 4200\<close> between 14 and 20 or between
  4 and 7 o'clock, switches on; otherwise nothing changes. In particular the booster
  stays on, without override, for \<open>4200 \<le> T < 4600\<close> at an hour outside both
  windows.
\<close>

theorem boost_rule_each_cycle:
  "avg_shw_vat_temp (fst (temp_block c v h g)) =
     ringbuf_avg (shw_vat_temp_ringbuf (snd (temp_block c v h g))) \<and>
   boost_of (snd (temp_block c v h g)) =
     boost_rule (sint (avg_shw_vat_temp (fst (temp_block c v h g)))) (unat h) (boost_of g) \<and>
   (boost_of g = (ON, False) \<and>
    4200 \<le> sint (avg_shw_vat_temp (fst (temp_block c v h g))) \<and>
    sint (avg_shw_vat_temp (fst (temp_block c v h g))) < 4600 \<and>
    \<not> (14 \<le> unat h \<and> unat h < 20) \<and> \<not> (4 \<le> unat h \<and> unat h < 7) \<longrightarrow>
    boost_of (snd (temp_block c v h g)) = (ON, False))"
  by (simp add: temp_block_avg temp_block_boost) (simp add: boost_rule_def)

theorem boost_rule_each_cycle_witness:
  "boost_of warm_tank = (ON, False) \<and>
   sint (avg_shw_vat_temp (fst (temp_block 2000 4300 22 warm_tank))) = 4300 \<and>
   boost_of (snd (temp_block 2000 4300 22 warm_tank)) = (ON, False)"
proof -
  have a: "boost_of warm_tank = (ON, False)"
    by code_simp
  have b: "sint (avg_shw_vat_temp (fst (temp_block 2000 4300 22 warm_tank))) = 4300"
    by code_simp
  have c: "unat (22 :: byte) = 22" by simp
  from boost_rule_each_cycle [of 2000 4300 22 warm_tank] a b c show ?thesis
    by (simp add: boost_rule_def)
qed

section \<open>The deviation clamp\<close>

text \<open>
  C2. For both channels, the value a pass writes into the averaging buffer is within
  100 centi-degrees of the last average of the channel; it is the reading itself when
  the reading is within 100 of that average, the last average plus 100 when the reading
  is more than 100 above it, and the last average minus 100 when the reading is more
  than 100 below it. The readings and averages range over the pairs whose difference
  the 16-bit subtraction of the source can hold.
\<close>

theorem clamp_limits_step:
  assumes "ringbuf_ok g"
    and "int_sub_defined c (last_avg_shw_collector_temp g)"
    and "int_sub_defined v (last_avg_shw_vat_temp g)"
  shows
    "\<bar>sint (shw_collector_temp_ringbuf (snd (temp_block c v h g)) ! unat (shw_ringbuf_offset g)) -
       sint (last_avg_shw_collector_temp g)\<bar> \<le> 100 \<and>
     (\<bar>sint c - sint (last_avg_shw_collector_temp g)\<bar> \<le> 100 \<longrightarrow>
        shw_collector_temp_ringbuf (snd (temp_block c v h g)) ! unat (shw_ringbuf_offset g) = c) \<and>
     \<bar>sint (shw_vat_temp_ringbuf (snd (temp_block c v h g)) ! unat (shw_ringbuf_offset g)) -
       sint (last_avg_shw_vat_temp g)\<bar> \<le> 100 \<and>
     (\<bar>sint v - sint (last_avg_shw_vat_temp g)\<bar> \<le> 100 \<longrightarrow>
        shw_vat_temp_ringbuf (snd (temp_block c v h g)) ! unat (shw_ringbuf_offset g) = v) \<and>
     (100 < sint c - sint (last_avg_shw_collector_temp g) \<longrightarrow>
        sint (shw_collector_temp_ringbuf (snd (temp_block c v h g)) ! unat (shw_ringbuf_offset g)) =
          sint (last_avg_shw_collector_temp g) + 100) \<and>
     (sint c - sint (last_avg_shw_collector_temp g) < - 100 \<longrightarrow>
        sint (shw_collector_temp_ringbuf (snd (temp_block c v h g)) ! unat (shw_ringbuf_offset g)) =
          sint (last_avg_shw_collector_temp g) - 100) \<and>
     (100 < sint v - sint (last_avg_shw_vat_temp g) \<longrightarrow>
        sint (shw_vat_temp_ringbuf (snd (temp_block c v h g)) ! unat (shw_ringbuf_offset g)) =
          sint (last_avg_shw_vat_temp g) + 100) \<and>
     (sint v - sint (last_avg_shw_vat_temp g) < - 100 \<longrightarrow>
        sint (shw_vat_temp_ringbuf (snd (temp_block c v h g)) ! unat (shw_ringbuf_offset g)) =
          sint (last_avg_shw_vat_temp g) - 100)"
proof -
  from assms(1) have
    "shw_collector_temp_ringbuf (snd (temp_block c v h g)) ! unat (shw_ringbuf_offset g) =
       sanitise c (last_avg_shw_collector_temp g)"
    "shw_vat_temp_ringbuf (snd (temp_block c v h g)) ! unat (shw_ringbuf_offset g) =
       sanitise v (last_avg_shw_vat_temp g)"
    by (simp_all add: temp_block_collector_buf temp_block_vat_buf ringbuf_ok_def)
  with assms(2,3) show ?thesis
    by (simp only: int_sub_defined_def)
      (simp add: sanitise_bound sanitise_id sanitise_high sanitise_low)
qed

theorem clamp_limits_step_witness:
  "ringbuf_ok warm_tank \<and>
   int_sub_defined 2500 (last_avg_shw_collector_temp warm_tank) \<and>
   int_sub_defined 4250 (last_avg_shw_vat_temp warm_tank) \<and>
   int_sub_defined 1500 (last_avg_shw_collector_temp warm_tank) \<and>
   sint (shw_collector_temp_ringbuf (snd (temp_block 2500 4250 22 warm_tank)) ! 3) = 2100 \<and>
   shw_vat_temp_ringbuf (snd (temp_block 2500 4250 22 warm_tank)) ! 3 = 4250 \<and>
   sint (shw_collector_temp_ringbuf (snd (temp_block 1500 4250 22 warm_tank)) ! 3) = 1900"
proof -
  have a: "ringbuf_ok warm_tank"
    by code_simp
  have b: "int_sub_defined 2500 (last_avg_shw_collector_temp warm_tank)"
    "int_sub_defined 1500 (last_avg_shw_collector_temp warm_tank)"
    by code_simp+
  have c: "int_sub_defined 4250 (last_avg_shw_vat_temp warm_tank)"
    by code_simp
  have d: "unat (shw_ringbuf_offset warm_tank) = 3"
    "sint (last_avg_shw_vat_temp warm_tank) = 4300"
    "sint (last_avg_shw_collector_temp warm_tank) = 2000"
    by code_simp+
  from clamp_limits_step [OF a b(1) c, of 22] clamp_limits_step [OF a b(2) c, of 22] d a b c
  show ?thesis
    by simp
qed

section \<open>The sensor reader\<close>





text \<open>
  C8, as the code has it. A reading is accepted when its checksum matches and its decoded
  value lies strictly between -500 and 10000, that is in -499..9999; the decoded values
  -500 and 10000 are rejected.
\<close>

theorem range_check_exclusive:
  "reading crc8 data =
     (if crc8 (map data [0..<8]) = data 8 \<and>
         - 499 \<le> sint (decode_temp data) \<and> sint (decode_temp data) \<le> 9999
      then Some (decode_temp data) else None) \<and>
   temp_in_range tmp = (- 499 \<le> sint tmp \<and> sint tmp \<le> 9999) \<and>
   \<not> temp_in_range (- 500) \<and> \<not> temp_in_range 10000 \<and>
   temp_in_range (- 499) \<and> temp_in_range 9999"
  by (auto simp: reading_def Let_def temp_in_range_def)

text \<open>
  The frame of 100.00 degrees has a matching checksum and decodes to 10000, and is not
  accepted; likewise the frame of -5.00 degrees, which decodes to -500.
\<close>

theorem range_bounds_rejected:
  "onewire_crc8 (map frame_100 [0..<8]) = frame_100 8 \<and>
   sint (decode_temp frame_100) = 10000 \<and>
   reading onewire_crc8 frame_100 = None \<and>
   onewire_crc8 (map frame_minus5 [0..<8]) = frame_minus5 8 \<and>
   sint (decode_temp frame_minus5) = - 500 \<and>
   reading onewire_crc8 frame_minus5 = None"
  by code_simp

section \<open>The gate\<close>

lemma gate_iff: "gate m g \<longleftrightarrow> 1001 \<le> uint (m - shw_hotwater_flowsensor_oldtime g)"
  by (auto simp: gate_def)

lemma flow_block_oldtime:
  "flow_block m1 m2 g = Inr (fr, g') \<Longrightarrow> shw_hotwater_flowsensor_oldtime g' = m2"
  by (auto simp: flow_block_def Let_def split: sum.splits)

text \<open>
  C7, as the code has it. The guarded body of an iteration is entered exactly when more
  than 1000 milliseconds (1001 or more, computed modulo \<open>2^32\<close>) have passed since
  the time the last pass stored; with 1000 or less the iteration leaves the globals
  untouched. A completed pass stores the clock read at line 561.
\<close>

theorem gate_more_than_1000:
  "pass_started (loop_pass inp g) =
     (1001 \<le> uint (millis_gate inp - shw_hotwater_flowsensor_oldtime g)) \<and>
   (uint (millis_gate inp - shw_hotwater_flowsensor_oldtime g) \<le> 1000 \<longrightarrow>
      loop_pass inp g = Some (Inr (None, g))) \<and>
   (\<forall>p g'. loop_pass inp g = Some (Inr (Some p, g')) \<longrightarrow>
      shw_hotwater_flowsensor_oldtime g' = millis_old inp)"
proof (cases "gate (millis_gate inp) g")
  case False
  then have "loop_pass inp g = Some (Inr (None, g))"
    by (simp add: loop_pass_def)
  with False show ?thesis
    by (simp add: pass_started_def gate_iff)
next
  case True
  then have a: "pass_started (loop_pass inp g)"
    by (auto simp: loop_pass_def pass_started_def Let_def split_beta
        split: option.splits sum.splits prod.splits)
  have b: "shw_hotwater_flowsensor_oldtime g' = millis_old inp"
    if "loop_pass inp g = Some (Inr (Some p, g'))" for p g'
    using that True
    by (auto simp: loop_pass_def Let_def split_beta
        split: option.splits sum.splits dest: flow_block_oldtime)
  from True a b show ?thesis
    by (auto simp: gate_iff)
qed

theorem gate_more_than_1000_witness:
  "uint (millis_gate (idle_in 1001) - shw_hotwater_flowsensor_oldtime startup) = 1001 \<and>
   pass_started (loop_pass (idle_in 1001) startup) \<and>
   uint (millis_gate (idle_in 1000) - shw_hotwater_flowsensor_oldtime startup) = 1000 \<and>
   loop_pass (idle_in 1000) startup = Some (Inr (None, startup))"
proof -
  have a: "uint (millis_gate (idle_in 1001) - shw_hotwater_flowsensor_oldtime startup) = 1001"
    by (simp add: idle_in_def startup_def)
  have b: "uint (millis_gate (idle_in 1000) - shw_hotwater_flowsensor_oldtime startup) = 1000"
    by (simp add: idle_in_def startup_def)
  from gate_more_than_1000 [of "idle_in 1001" startup]
    gate_more_than_1000 [of "idle_in 1000" startup] a b
  show ?thesis by simp
qed

text \<open>With exactly 1000 milliseconds elapsed the body is not entered.\<close>

theorem exactly_1000_ms_not_enough:
  "uint (millis_gate (idle_in 1000) - shw_hotwater_flowsensor_oldtime startup) = 1000 \<and>
   \<not> pass_started (loop_pass (idle_in 1000) startup)"
  by (simp add: idle_in_def startup_def loop_pass_def gate_def pass_started_def)

section \<open>Inbound commands\<close>

lemma udp_read_terminated:
  assumes "length payload < length junk"
  shows "(udp_read junk payload)[length payload := NUL] =
         payload @ NUL # drop (Suc (length payload)) junk"
proof -
  from assms have "udp_read junk payload = payload @ drop (length payload) junk"
    by (simp add: udp_read_def)
  moreover from assms have "drop (length payload) junk =
      junk ! length payload # drop (Suc (length payload)) junk"
    by (simp add: Cons_nth_drop_Suc)
  ultimately show ?thesis
    by (simp add: list_update_append)
qed

lemma of_char_nat_0: "(of_char a :: nat) = 0 \<longleftrightarrow> a = NUL"
  using of_char_eq_iff [of a NUL, where ?'a = nat] by simp

lemma strcmp_lit:
  "NUL \<notin> set s \<Longrightarrow>
   \<exists>d. strcmp (p @ NUL # rest) (s @ [NUL]) = Inr d \<and> (d = 0 \<longleftrightarrow> c_str p = s)"
proof (induction p arbitrary: s)
  case Nil
  then show ?case
    by (cases s) (auto simp: c_str_def of_char_nat_0)
next
  case (Cons a as)
  show ?case
  proof (cases s)
    case Nil
    then show ?thesis
      by (auto simp: c_str_def of_char_nat_0)
  next
    case (Cons b bs)
    with Cons.prems have nz: "b \<noteq> NUL" "NUL \<notin> set bs" by auto
    show ?thesis
    proof (cases "a = b")
      case True
      with Cons nz Cons.IH [OF nz(2)] show ?thesis
        by (auto simp: c_str_def)
    next
      case False
      then have "(of_char a :: nat) \<noteq> of_char b"
        by simp
      with False Cons show ?thesis
        by (auto simp: c_str_def)
    qed
  qed
qed

lemma strcmp_buffer:
  assumes "length payload < length junk" "NUL \<notin> set s"
  shows "\<exists>d. strcmp ((udp_read junk payload)[length payload := NUL]) (lit s) = Inr d \<and>
             (d = 0 \<longleftrightarrow> c_str payload = s)"
  using strcmp_lit [OF assms(2)] assms(1)
  by (simp add: udp_read_terminated lit_def)

lemma packet_block_eq:
  assumes "payload \<noteq> []" "length payload < length junk"
  shows "packet_block junk ip port payload g =
     Inr (if c_str payload = ''BOOST_ON''
          then ([''BOOST_ON''], (packet_seen ip port g)\<lparr>shw_boost_override := True\<rparr>)
          else if c_str payload = ''BOOST_OFF''
          then ([''BOOST_OFF''],
                (packet_seen ip port g)\<lparr>shw_boost_state := False, shw_boost_override := False\<rparr>)
          else ([], packet_seen ip port g))"
proof -
  have len: "length (udp_read junk payload) = length junk"
    using assms(2) by (simp add: udp_read_def)
  obtain d1 where d1:
    "strcmp ((udp_read junk payload)[length payload := NUL]) (lit ''BOOST_ON'') = Inr d1"
    "d1 = 0 \<longleftrightarrow> c_str payload = ''BOOST_ON''"
    using strcmp_buffer [OF assms(2), of "''BOOST_ON''"] by auto
  obtain d2 where d2:
    "strcmp ((udp_read junk payload)[length payload := NUL]) (lit ''BOOST_OFF'') = Inr d2"
    "d2 = 0 \<longleftrightarrow> c_str payload = ''BOOST_OFF''"
    using strcmp_buffer [OF assms(2), of "''BOOST_OFF''"] by auto
  from assms len d1 d2 show ?thesis
    by (simp add: packet_block_def Let_def packet_seen_def)
qed

lemma firsttime_temp_block:
  "firsttime (snd (temp_block c v h g)) = firsttime g"
  by (simp add: temp_block_def Let_def split_beta report_temps_def boost_switch_def
      store_temps_def)

lemma temp_block_reports_firsttime:
  "firsttime g \<Longrightarrow> temp_reported (fst (temp_block c v h g))"
  by (simp add: temp_block_def Let_def split_beta report_temps_def boost_switch_def
      store_temps_def)

lemma flow_block_reports_firsttime:
  "firsttime g \<Longrightarrow> flow_block m1 m2 g = Inr (fr, g') \<Longrightarrow> flow_reported fr"
  by (auto simp: flow_block_def Let_def split: sum.splits)

text \<open>
  C5, as the code has it. For a datagram of at least one byte that leaves room for the
  terminator in the local array, the command is the payload read as a C string (up to
  its first NUL byte). \<open>BOOST_ON\<close> sets the override; \<open>BOOST_OFF\<close> clears the
  override and the boost state; any other string changes neither and prints no command
  line. In every case the first-time flag is set, so that the next pass sends both
  records.
\<close>

theorem remote_commands:
  assumes "payload \<noteq> []" "length payload < length junk"
  shows
    "case packet_block junk ip port payload g of
       Inl f \<Rightarrow> False
     | Inr (lines, g') \<Rightarrow>
         firsttime g' \<and> haveremoteudp g' \<and>
         (payload = ''BOOST_ON'' \<or> c_str payload = ''BOOST_ON'' \<longrightarrow>
            shw_boost_override g' \<and> shw_boost_state g' = shw_boost_state g \<and>
            lines = [''BOOST_ON'']) \<and>
         (payload = ''BOOST_OFF'' \<or> c_str payload = ''BOOST_OFF'' \<longrightarrow>
            \<not> shw_boost_override g' \<and> \<not> shw_boost_state g' \<and> lines = [''BOOST_OFF'']) \<and>
         (c_str payload \<noteq> ''BOOST_ON'' \<and> c_str payload \<noteq> ''BOOST_OFF'' \<longrightarrow>
            shw_boost_override g' = shw_boost_override g \<and>
            shw_boost_state g' = shw_boost_state g \<and> lines = []) \<and>
         temp_reported (fst (temp_block c v h g')) \<and>
         (\<forall>fr g''. flow_block m1 m2 (snd (temp_block c v h g')) = Inr (fr, g'') \<longrightarrow>
            flow_reported fr)"
proof -
  have lits: "c_str ''BOOST_ON'' = ''BOOST_ON''" "c_str ''BOOST_OFF'' = ''BOOST_OFF''"
    by (simp_all add: c_str_def)
  have ft: "firsttime (packet_seen ip port g)" "haveremoteudp (packet_seen ip port g)"
    by (simp_all add: packet_seen_def)
  have rep: "temp_reported (fst (temp_block c v h g'))"
    "\<forall>fr g''. flow_block m1 m2 (snd (temp_block c v h g')) = Inr (fr, g'') \<longrightarrow> flow_reported fr"
    if "firsttime g'" for g'
    using that flow_block_reports_firsttime [of "snd (temp_block c v h g')"]
    by (simp_all add: temp_block_reports_firsttime firsttime_temp_block)
  consider "c_str payload = ''BOOST_ON''" | "c_str payload = ''BOOST_OFF''"
    | "c_str payload \<noteq> ''BOOST_ON''" "c_str payload \<noteq> ''BOOST_OFF''"
    by blast
  then show ?thesis
  proof cases
    case 1
    then have "payload \<noteq> ''BOOST_OFF''" using lits by auto
    with 1 rep [of "(packet_seen ip port g)\<lparr>shw_boost_override := True\<rparr>"] ft
    show ?thesis
      by (simp add: packet_block_eq [OF assms] packet_seen_def)
  next
    case 2
    then have "payload \<noteq> ''BOOST_ON''" using lits by auto
    with 2 rep [of "(packet_seen ip port g)\<lparr>shw_boost_state := False,
        shw_boost_override := False\<rparr>"] ft
    show ?thesis
      by (simp add: packet_block_eq [OF assms] packet_seen_def)
  next
    case 3
    then have "payload \<noteq> ''BOOST_ON''" "payload \<noteq> ''BOOST_OFF''" using lits by auto
    with 3 rep [of "packet_seen ip port g"] ft
    show ?thesis
      by (simp add: packet_block_eq [OF assms] packet_seen_def)
  qed
qed

theorem remote_commands_witness:
  "shw_boost_state warm_tank \<and>
   (case packet_block (replicate 24 (CHR ''?'')) [192, 168, 2, 160] 8888 ''BOOST_OFF'' warm_tank of
      Inl f \<Rightarrow> False
    | Inr (lines, g') \<Rightarrow>
        firsttime g' \<and> \<not> shw_boost_override g' \<and> \<not> shw_boost_state g' \<and>
        lines = [''BOOST_OFF''])"
proof -
  have a: "''BOOST_OFF'' \<noteq> ([] :: char list)"
    "length ''BOOST_OFF'' < length (replicate 24 (CHR ''?''))"
    by simp_all
  have b: "shw_boost_state warm_tank"
    by code_simp
  from remote_commands [OF a, where ip = "[192, 168, 2, 160]" and port = 8888 and g = warm_tank] b
  show ?thesis
    by (auto split: sum.splits)
qed

text \<open>
  The nine bytes \<open>BOOST_ON\<close> and a NUL are not the payload \<open>BOOST_ON\<close>, and set the
  override.
\<close>

theorem trailing_nul_still_a_command:
  "''BOOST_ON'' @ [NUL] \<noteq> ''BOOST_ON'' \<and>
   \<not> shw_boost_override startup \<and>
   (case packet_block (replicate 24 (CHR ''?'')) [192, 168, 2, 160] 8888
           (''BOOST_ON'' @ [NUL]) startup of
      Inl f \<Rightarrow> False
    | Inr (lines, g') \<Rightarrow> shw_boost_override g' \<and> lines = [''BOOST_ON''])"
  by code_simp

text \<open>
  C10 fails on the code: nothing bounds \<open>packetSize\<close>. For a datagram of 24 bytes and
  an array of 24 bytes the terminator is written at index 24, outside the array.
\<close>

theorem terminator_past_the_buffer:
  "packet_block (replicate 24 (CHR ''?'')) [192, 168, 2, 160] 8888
     (replicate 24 (CHR ''A'')) startup = Inl OutOfBounds"
  by code_simp

section \<open>The ring buffers over consecutive passes\<close>


lemma length_stores [simp]: "length (stores n off w buf) = length buf"
  by (induction n arbitrary: off buf) simp_all

lemma stores_nth:
  "length buf = 10 \<Longrightarrow> off < 10 \<Longrightarrow> i < 10 \<Longrightarrow>
   stores n off w buf ! i =
     (if (if off \<le> i then i - off else i + 10 - off) < n then w else buf ! i)"
proof (induction n arbitrary: off buf)
  case 0
  show ?case by simp
next
  case (Suc n)
  let ?o = "if Suc off = 10 then 0 else Suc off"
  have o': "?o < 10" using Suc.prems by simp
  have len: "length (buf[off := w]) = 10" using Suc.prems by simp
  note IH = Suc.IH [OF len o' Suc.prems(3)]
  show ?case
  proof (cases "i = off")
    case True
    with Suc.prems IH show ?thesis by simp
  next
    case False
    with Suc.prems have
      "((if ?o \<le> i then i - ?o else i + 10 - ?o) < n) =
       ((if off \<le> i then i - off else i + 10 - off) < Suc n)"
      by (simp split: if_splits) linarith
    with False IH show ?thesis by simp
  qed
qed

lemma stores_full:
  assumes "length buf = 10" "off < 10"
  shows "stores 10 off w buf = replicate 10 w"
proof (rule nth_equalityI)
  show "length (stores 10 off w buf) = length (replicate 10 w)"
    using assms by simp
next
  fix i assume "i < length (stores 10 off w buf)"
  with assms have i: "i < 10" by simp
  with assms have "(if off \<le> i then i - off else i + 10 - off) < 10" by auto
  with stores_nth [OF assms i, of 10 w] i show "stores 10 off w buf ! i = replicate 10 w ! i"
    by simp
qed

lemma unat_next_offset:
  "unat off < 10 \<Longrightarrow>
   unat (next_offset off) = (if Suc (unat off) = 10 then 0 else Suc (unat off))"
  by (simp add: next_offset_def SHW_RINGBUF_NUM_ITEMS_def unat_mod unat_word_ariths)

lemma ringbuf_ok_temp_block:
  "ringbuf_ok g \<Longrightarrow> ringbuf_ok (snd (temp_block c v h g))"
  by (simp add: ringbuf_ok_def temp_block_collector_buf temp_block_vat_buf temp_block_offset
      unat_next_offset SHW_RINGBUF_NUM_ITEMS_def)

lemma temp_cycles_stores:
  "ringbuf_ok g \<Longrightarrow> clamp_free (map (\<lambda>h. (wc, wv, h)) hs) g \<Longrightarrow>
   ringbuf_ok (temp_cycles (map (\<lambda>h. (wc, wv, h)) hs) g) \<and>
   shw_collector_temp_ringbuf (temp_cycles (map (\<lambda>h. (wc, wv, h)) hs) g) =
     stores (length hs) (unat (shw_ringbuf_offset g)) wc (shw_collector_temp_ringbuf g) \<and>
   shw_vat_temp_ringbuf (temp_cycles (map (\<lambda>h. (wc, wv, h)) hs) g) =
     stores (length hs) (unat (shw_ringbuf_offset g)) wv (shw_vat_temp_ringbuf g)"
proof (induction hs arbitrary: g)
  case Nil
  then show ?case by simp
next
  case (Cons h hs)
  let ?g = "snd (temp_block wc wv h g)"
  from Cons.prems have ok: "ringbuf_ok ?g" and cf: "clamp_free (map (\<lambda>h. (wc, wv, h)) hs) ?g"
    and id: "sanitise wc (last_avg_shw_collector_temp g) = wc"
      "sanitise wv (last_avg_shw_vat_temp g) = wv"
    by (simp_all add: ringbuf_ok_temp_block)
  from Cons.prems(1) have off: "unat (shw_ringbuf_offset ?g) =
      (if Suc (unat (shw_ringbuf_offset g)) = 10 then 0 else Suc (unat (shw_ringbuf_offset g)))"
    by (simp add: temp_block_offset unat_next_offset ringbuf_ok_def SHW_RINGBUF_NUM_ITEMS_def)
  from Cons.IH [OF ok cf] off id show ?case
    by (simp add: temp_block_collector_buf temp_block_vat_buf)
qed

lemma ucast_as_scast: "(ucast (x :: 32 word) :: 16 word) = scast x"
  by (rule bit_word_eqI) (auto simp: bit_ucast_iff bit_signed_iff)

lemma sint16_of_int:
  "- 32768 \<le> k \<Longrightarrow> k \<le> 32767 \<Longrightarrow> sint (word_of_int k :: 16 word) = k"
  by (simp add: sint_sbintrunc' signed_take_bit_int_eq_self)

lemma sdiv_10_bounds:
  assumes "- 327680 \<le> S" "S \<le> 327670"
  shows "- 32768 \<le> S sdiv 10 \<and> S sdiv 10 \<le> (32767 :: int)"
proof -
  consider "S < 0" | "S = 0" | "0 < S" by linarith
  then show ?thesis
  proof cases
    case 1
    then have "S sdiv 10 = - ((- S) div 10)"
      by (simp add: signed_divide_int_def)
    moreover from 1 assms have "0 \<le> (- S) div 10" "(- S) div 10 \<le> 32768" by simp_all
    ultimately show ?thesis by simp
  next
    case 2
    then show ?thesis by simp
  next
    case 3
    then have "S sdiv 10 = S div 10"
      by (simp add: signed_divide_int_def)
    moreover from 3 assms have "0 \<le> S div 10" "S div 10 \<le> 32767" by simp_all
    ultimately show ?thesis by simp
  qed
qed

lemma sum_list_sint_bounds:
  "- 32768 * int (length buf) \<le> sum_list (map sint (buf :: 16 word list)) \<and>
   sum_list (map sint buf) \<le> 32767 * int (length buf)"
proof (induction buf)
  case Nil
  show ?case by simp
next
  case (Cons x xs)
  with sint16_range [of x] show ?case by (simp add: algebra_simps)
qed

lemma ringbuf_avg_int16:
  assumes "length buf = SHW_RINGBUF_NUM_ITEMS"
  shows "- 32768 \<le> sint (ringbuf_avg buf) \<and> sint (ringbuf_avg buf) \<le> 32767"
proof -
  from sum_list_sint_bounds [of buf] assms
  have "- 327680 \<le> sum_list (map sint buf)" "sum_list (map sint buf) \<le> 327670"
    by (simp_all add: SHW_RINGBUF_NUM_ITEMS_def)
  then show ?thesis
    by (simp only: ringbuf_avg_mean [OF assms] sdiv_10_bounds)
qed

lemma sint_ucast_avg:
  assumes "length buf = SHW_RINGBUF_NUM_ITEMS"
  shows "sint (ucast (ringbuf_avg buf) :: 16 word) = sint (ringbuf_avg buf)"
proof -
  from ringbuf_avg_int16 [OF assms]
  have "sint (word_of_int (sint (ringbuf_avg buf)) :: 16 word) = sint (ringbuf_avg buf)"
    by (intro sint16_of_int) simp_all
  then show ?thesis
    by (simp add: ucast_as_scast)
qed

lemma ucast_eq_if_sint_eq:
  "sint (a :: 32 word) = sint (l :: 16 word) \<Longrightarrow> ucast a = l"
proof -
  assume "sint a = sint l"
  then have "(word_of_int (sint a) :: 16 word) = word_of_int (sint l)" by simp
  then show ?thesis by (simp add: ucast_as_scast)
qed

lemma temp_block_last_avg:
  shows "last_avg_shw_collector_temp (snd (temp_block c v h g)) =
           ucast (avg_shw_collector_temp (fst (temp_block c v h g)))"
    and "last_avg_shw_vat_temp (snd (temp_block c v h g)) =
           ucast (avg_shw_vat_temp (fst (temp_block c v h g)))"
  by (auto simp: temp_block_def Let_def split_beta report_temps_def ucast_eq_if_sint_eq)

lemma temp_cycles_append:
  "temp_cycles (xs @ ys) g = temp_cycles ys (temp_cycles xs g)"
  by (induction xs g rule: temp_cycles.induct) simp_all

lemma ringbuf_ok_temp_cycles:
  "ringbuf_ok g \<Longrightarrow> ringbuf_ok (temp_cycles xs g)"
  by (induction xs g rule: temp_cycles.induct) (simp_all add: ringbuf_ok_temp_block)

lemma sint_eq_imp_eq: "sint (a :: 16 word) = sint b \<Longrightarrow> a = b"
  by (simp add: signed_word_eqI)

lemma last_avg_after_pass:
  assumes "ringbuf_ok g"
  shows "sint (last_avg_shw_collector_temp (snd (temp_block c v h g))) =
           sint (ringbuf_avg (shw_collector_temp_ringbuf (snd (temp_block c v h g))))"
    and "sint (last_avg_shw_vat_temp (snd (temp_block c v h g))) =
           sint (ringbuf_avg (shw_vat_temp_ringbuf (snd (temp_block c v h g))))"
proof -
  from ringbuf_ok_temp_block [OF assms, of c v h]
  have len: "length (shw_collector_temp_ringbuf (snd (temp_block c v h g))) = SHW_RINGBUF_NUM_ITEMS"
    "length (shw_vat_temp_ringbuf (snd (temp_block c v h g))) = SHW_RINGBUF_NUM_ITEMS"
    by (simp_all add: ringbuf_ok_def)
  show "sint (last_avg_shw_collector_temp (snd (temp_block c v h g))) =
           sint (ringbuf_avg (shw_collector_temp_ringbuf (snd (temp_block c v h g))))"
    by (simp only: temp_block_last_avg temp_block_avg sint_ucast_avg [OF len(1)])
  show "sint (last_avg_shw_vat_temp (snd (temp_block c v h g))) =
           sint (ringbuf_avg (shw_vat_temp_ringbuf (snd (temp_block c v h g))))"
    by (simp only: temp_block_last_avg temp_block_avg sint_ucast_avg [OF len(2)])
qed

lemma ten_cycles:
  assumes ok: "ringbuf_ok g" and len: "length hs = 10"
    and cf: "clamp_free (map (\<lambda>h. (wc, wv, h)) hs) g"
  shows "shw_collector_temp_ringbuf (temp_cycles (map (\<lambda>h. (wc, wv, h)) hs) g) =
           replicate SHW_RINGBUF_NUM_ITEMS wc"
    and "shw_vat_temp_ringbuf (temp_cycles (map (\<lambda>h. (wc, wv, h)) hs) g) =
           replicate SHW_RINGBUF_NUM_ITEMS wv"
    and "last_avg_shw_collector_temp (temp_cycles (map (\<lambda>h. (wc, wv, h)) hs) g) = wc"
    and "last_avg_shw_vat_temp (temp_cycles (map (\<lambda>h. (wc, wv, h)) hs) g) = wv"
proof -
  let ?xs = "map (\<lambda>h. (wc, wv, h)) hs"
  from ok have b: "length (shw_collector_temp_ringbuf g) = 10"
    "length (shw_vat_temp_ringbuf g) = 10" "unat (shw_ringbuf_offset g) < 10"
    by (simp_all add: ringbuf_ok_def SHW_RINGBUF_NUM_ITEMS_def)
  from temp_cycles_stores [OF ok cf] len b
  show c: "shw_collector_temp_ringbuf (temp_cycles ?xs g) = replicate SHW_RINGBUF_NUM_ITEMS wc"
    and v: "shw_vat_temp_ringbuf (temp_cycles ?xs g) = replicate SHW_RINGBUF_NUM_ITEMS wv"
    by (simp_all add: stores_full SHW_RINGBUF_NUM_ITEMS_def)
  from len obtain hs' h where hs: "hs = hs' @ [h]"
    by (cases hs rule: rev_cases) auto
  let ?g9 = "temp_cycles (map (\<lambda>h. (wc, wv, h)) hs') g"
  have last: "temp_cycles ?xs g = snd (temp_block wc wv h ?g9)"
    by (simp add: hs temp_cycles_append)
  have ok9: "ringbuf_ok ?g9"
    using ok by (rule ringbuf_ok_temp_cycles)
  from last_avg_after_pass [OF ok9, of wc wv h] c v
  have "sint (last_avg_shw_collector_temp (temp_cycles ?xs g)) = sint wc"
    "sint (last_avg_shw_vat_temp (temp_cycles ?xs g)) = sint wv"
    by (simp_all only: last [symmetric] ringbuf_avg_replicate)
  then show "last_avg_shw_collector_temp (temp_cycles ?xs g) = wc"
    "last_avg_shw_vat_temp (temp_cycles ?xs g) = wv"
    by (simp_all add: sint_eq_imp_eq)
qed

text \<open>
  C3. A pass stores the clamped readings of both channels at the one shared offset,
  moves the offset on by one slot modulo 10, and sets each average to the sum of the ten
  slots of the channel divided by ten and rounded towards zero. Hence a buffer whose
  ten slots hold the same value has that value as its average; and after ten
  consecutive passes with the constant readings \<open>wc\<close> and \<open>wv\<close>, none of them
  changed by the clamp, all slots hold them and the averages (also the stored last
  averages) are \<open>wc\<close> and \<open>wv\<close>.
\<close>

theorem ring_buffer_average:
  assumes "ringbuf_ok g"
  shows
    "shw_collector_temp_ringbuf (snd (temp_block c v h g)) =
       (shw_collector_temp_ringbuf g)[unat (shw_ringbuf_offset g) :=
          sanitise c (last_avg_shw_collector_temp g)] \<and>
     shw_vat_temp_ringbuf (snd (temp_block c v h g)) =
       (shw_vat_temp_ringbuf g)[unat (shw_ringbuf_offset g) :=
          sanitise v (last_avg_shw_vat_temp g)] \<and>
     unat (shw_ringbuf_offset (snd (temp_block c v h g))) =
       (unat (shw_ringbuf_offset g) + 1) mod 10 \<and>
     sint (avg_shw_collector_temp (fst (temp_block c v h g))) =
       sum_list (map sint (shw_collector_temp_ringbuf (snd (temp_block c v h g)))) sdiv 10 \<and>
     sint (avg_shw_vat_temp (fst (temp_block c v h g))) =
       sum_list (map sint (shw_vat_temp_ringbuf (snd (temp_block c v h g)))) sdiv 10 \<and>
     sint (ringbuf_avg (replicate SHW_RINGBUF_NUM_ITEMS b)) = sint b \<and>
     (shw_collector_temp_ringbuf (snd (temp_block c v h g)) = replicate SHW_RINGBUF_NUM_ITEMS b \<longrightarrow>
        sint (avg_shw_collector_temp (fst (temp_block c v h g))) = sint b) \<and>
     (shw_vat_temp_ringbuf (snd (temp_block c v h g)) = replicate SHW_RINGBUF_NUM_ITEMS b \<longrightarrow>
        sint (avg_shw_vat_temp (fst (temp_block c v h g))) = sint b) \<and>
     (length hs = 10 \<and> clamp_free (map (\<lambda>h. (wc, wv, h)) hs) g \<longrightarrow>
        shw_collector_temp_ringbuf (temp_cycles (map (\<lambda>h. (wc, wv, h)) hs) g) =
          replicate SHW_RINGBUF_NUM_ITEMS wc \<and>
        shw_vat_temp_ringbuf (temp_cycles (map (\<lambda>h. (wc, wv, h)) hs) g) =
          replicate SHW_RINGBUF_NUM_ITEMS wv \<and>
        sint (ringbuf_avg (shw_collector_temp_ringbuf
               (temp_cycles (map (\<lambda>h. (wc, wv, h)) hs) g))) = sint wc \<and>
        sint (ringbuf_avg (shw_vat_temp_ringbuf
               (temp_cycles (map (\<lambda>h. (wc, wv, h)) hs) g))) = sint wv \<and>
        last_avg_shw_collector_temp (temp_cycles (map (\<lambda>h. (wc, wv, h)) hs) g) = wc \<and>
        last_avg_shw_vat_temp (temp_cycles (map (\<lambda>h. (wc, wv, h)) hs) g) = wv)"
proof -
  from ringbuf_ok_temp_block [OF assms, of c v h]
  have len: "length (shw_collector_temp_ringbuf (snd (temp_block c v h g))) = SHW_RINGBUF_NUM_ITEMS"
    "length (shw_vat_temp_ringbuf (snd (temp_block c v h g))) = SHW_RINGBUF_NUM_ITEMS"
    by (simp_all add: ringbuf_ok_def)
  from assms have off: "unat (shw_ringbuf_offset g) < 10"
    by (simp add: ringbuf_ok_def SHW_RINGBUF_NUM_ITEMS_def)
  then have nxt: "unat (shw_ringbuf_offset (snd (temp_block c v h g))) =
       (unat (shw_ringbuf_offset g) + 1) mod 10"
    by (auto simp: temp_block_offset unat_next_offset)
  have mean: "sint (avg_shw_collector_temp (fst (temp_block c v h g))) =
       sum_list (map sint (shw_collector_temp_ringbuf (snd (temp_block c v h g)))) sdiv 10"
    "sint (avg_shw_vat_temp (fst (temp_block c v h g))) =
       sum_list (map sint (shw_vat_temp_ringbuf (snd (temp_block c v h g)))) sdiv 10"
    by (simp_all only: temp_block_avg ringbuf_avg_mean [OF len(1)] ringbuf_avg_mean [OF len(2)])
  have same: "shw_collector_temp_ringbuf (snd (temp_block c v h g)) =
        replicate SHW_RINGBUF_NUM_ITEMS b \<longrightarrow>
        sint (avg_shw_collector_temp (fst (temp_block c v h g))) = sint b"
    "shw_vat_temp_ringbuf (snd (temp_block c v h g)) = replicate SHW_RINGBUF_NUM_ITEMS b \<longrightarrow>
        sint (avg_shw_vat_temp (fst (temp_block c v h g))) = sint b"
    by (simp_all add: temp_block_avg ringbuf_avg_replicate)
  have ten: "shw_collector_temp_ringbuf (temp_cycles (map (\<lambda>h. (wc, wv, h)) hs) g) =
          replicate SHW_RINGBUF_NUM_ITEMS wc \<and>
        shw_vat_temp_ringbuf (temp_cycles (map (\<lambda>h. (wc, wv, h)) hs) g) =
          replicate SHW_RINGBUF_NUM_ITEMS wv \<and>
        sint (ringbuf_avg (shw_collector_temp_ringbuf
               (temp_cycles (map (\<lambda>h. (wc, wv, h)) hs) g))) = sint wc \<and>
        sint (ringbuf_avg (shw_vat_temp_ringbuf
               (temp_cycles (map (\<lambda>h. (wc, wv, h)) hs) g))) = sint wv \<and>
        last_avg_shw_collector_temp (temp_cycles (map (\<lambda>h. (wc, wv, h)) hs) g) = wc \<and>
        last_avg_shw_vat_temp (temp_cycles (map (\<lambda>h. (wc, wv, h)) hs) g) = wv"
    if "length hs = 10" "clamp_free (map (\<lambda>h. (wc, wv, h)) hs) g"
    using ten_cycles [OF assms that] by (simp add: ringbuf_avg_replicate)
  from nxt mean same ten temp_block_collector_buf [of c v h g]
    temp_block_vat_buf [of c v h g] ringbuf_avg_replicate [of b]
  show ?thesis by blast
qed

theorem ring_buffer_average_witness:
  "ringbuf_ok warm_tank \<and>
   clamp_free (map (\<lambda>h. (2050, 4250, h)) (replicate 10 22)) warm_tank \<and>
   sint (ringbuf_avg (shw_collector_temp_ringbuf
      (temp_cycles (map (\<lambda>h. (2050, 4250, h)) (replicate 10 22)) warm_tank))) = 2050 \<and>
   last_avg_shw_vat_temp
      (temp_cycles (map (\<lambda>h. (2050, 4250, h)) (replicate 10 22)) warm_tank) = 4250"
proof -
  have a: "ringbuf_ok warm_tank"
    by code_simp
  have b: "clamp_free (map (\<lambda>h. (2050, 4250, h)) (replicate 10 22)) warm_tank"
    by code_simp
  have c: "length (replicate 10 (22 :: byte)) = 10" "sint (2050 :: c_int) = 2050"
    by simp_all
  from ring_buffer_average [OF a, where hs = "replicate 10 22" and wc = 2050 and wv = 4250] b c a
  show ?thesis by simp
qed

section \<open>Flow integration\<close>

















text \<open>
  The elapsed time of line 553 is not zero in a pass: the gate has seen more than 1000
  milliseconds, and the clock of line 553 is read later (the 32-bit difference has not
  wrapped around in between).
\<close>

lemma elapsed_nonzero_after_gate:
  assumes "gate m g"
    and "uint (m1 - shw_hotwater_flowsensor_oldtime g) =
         uint (m - shw_hotwater_flowsensor_oldtime g) + uint (m1 - m)"
  shows "m1 \<noteq> shw_hotwater_flowsensor_oldtime g"
proof
  assume "m1 = shw_hotwater_flowsensor_oldtime g"
  then have "uint (m1 - shw_hotwater_flowsensor_oldtime g) = 0" by simp
  moreover have "0 \<le> uint (m1 - m)" by simp
  moreover from assms(1) have "1000 < uint (m - shw_hotwater_flowsensor_oldtime g)"
    by (simp add: gate_def)
  ultimately show False using assms(2) by linarith
qed



end
